theory Spec2Isabelle
  imports Complex_Main "HOL-Library.Word"
begin

section \<open>JavaScript values\<close>

text \<open>
  Both front ends are React applications. A JavaScript string is a sequence of UTF-16
  code units; a value that arrives from the backend is parsed JSON. \<open>JUndefined\<close> is
  what reading a missing property gives. A number is a \<open>real\<close>; the text that
  \<^verbatim>\<open>Number.prototype.toString\<close> gives for it belongs to the language, and is a
  parameter \<open>nts\<close> of every function that renders a value.
\<close>

type_synonym jsstring = "16 word list"

definition lit :: "string \<Rightarrow> jsstring" where
  "lit s = map (\<lambda>c. of_nat (of_char c)) s"

datatype js_error = TypeError

datatype jsval =
    JUndefined
  | JNull
  | JBool bool
  | JNum real
  | JStr jsstring
  | JArr "jsval list"
  | JObj "(jsstring \<times> jsval) list"

text \<open>\<^verbatim>\<open>!v\<close> is \<open>\<not> truthy v\<close>; \<^verbatim>\<open>a || b\<close> and \<^verbatim>\<open>a ?? b\<close>.\<close>

fun truthy :: "jsval \<Rightarrow> bool" where
  "truthy JUndefined = False"
| "truthy JNull = False"
| "truthy (JBool b) = b"
| "truthy (JNum x) = (x \<noteq> 0)"
| "truthy (JStr s) = (s \<noteq> [])"
| "truthy (JArr xs) = True"
| "truthy (JObj kvs) = True"

fun nullish :: "jsval \<Rightarrow> bool" where
  "nullish JUndefined = True"
| "nullish JNull = True"
| "nullish v = False"

definition js_or :: "jsval \<Rightarrow> jsval \<Rightarrow> jsval" where
  "js_or a b = (if truthy a then a else b)"

definition js_coalesce :: "jsval \<Rightarrow> jsval \<Rightarrow> jsval" where
  "js_coalesce a b = (if nullish a then b else a)"

text \<open>
  \<^verbatim>\<open>v.p\<close> for a value \<open>v\<close> that is neither \<^verbatim>\<open>null\<close> nor \<^verbatim>\<open>undefined\<close>
  (on those the read throws, which the callers check first). An object parsed from JSON
  has its own properties only; the names read in this repository (\<^verbatim>\<open>metadata\<close>,
  \<^verbatim>\<open>source\<close>, \<^verbatim>\<open>chunk_index\<close>, \<^verbatim>\<open>chunkIndex\<close>, \<^verbatim>\<open>snippet\<close>) are
  defined on no prototype, so on a string, a number, a boolean or an array they read
  \<^verbatim>\<open>undefined\<close>.
\<close>

fun member :: "jsval \<Rightarrow> jsstring \<Rightarrow> jsval" where
  "member (JObj kvs) p = (case map_of kvs p of None \<Rightarrow> JUndefined | Some v \<Rightarrow> v)"
| "member v p = JUndefined"

text \<open>
  \<open>to_string\<close> is the conversion a template literal applies. An array is joined with
  commas, \<^verbatim>\<open>null\<close> and \<^verbatim>\<open>undefined\<close> elements giving the empty string. A plain
  object gives \<^verbatim>\<open>[object Object]\<close>, unless it has a property \<^verbatim>\<open>toString\<close> of its
  own: parsed from JSON that property is not callable, the inherited \<^verbatim>\<open>valueOf\<close>
  returns the object, and the conversion throws a TypeError.
\<close>

fun to_string :: "(real \<Rightarrow> jsstring) \<Rightarrow> jsval \<Rightarrow> js_error + jsstring"
  and join_elems :: "(real \<Rightarrow> jsstring) \<Rightarrow> jsval list \<Rightarrow> js_error + jsstring" where
  "to_string nts JUndefined = Inr (lit ''undefined'')"
| "to_string nts JNull = Inr (lit ''null'')"
| "to_string nts (JBool b) = Inr (if b then lit ''true'' else lit ''false'')"
| "to_string nts (JNum x) = Inr (nts x)"
| "to_string nts (JStr s) = Inr s"
| "to_string nts (JArr xs) = join_elems nts xs"
| "to_string nts (JObj kvs) =
     (if lit ''toString'' \<in> fst ` set kvs then Inl TypeError
      else Inr (lit ''[object Object]''))"
| "join_elems nts [] = Inr []"
| "join_elems nts (x # xs) =
     (case (if nullish x then Inr [] else to_string nts x) of
        Inl e \<Rightarrow> Inl e
      | Inr s \<Rightarrow>
          (if xs = [] then Inr s
           else (case join_elems nts xs of
                   Inl e \<Rightarrow> Inl e
                 | Inr r \<Rightarrow> Inr (s @ lit '','' @ r))))"

text \<open>Decimal text of an array index, for the property names of an array or string.\<close>

function dec_text :: "nat \<Rightarrow> jsstring" where
  "dec_text n =
     (if n < 10 then [of_nat (48 + n)]
      else dec_text (n div 10) @ [of_nat (48 + n mod 10)])"
  by pat_completeness auto
termination
  by (relation "measure id") auto

text \<open>
  The own enumerable properties that \<^verbatim>\<open>{...v}\<close> copies, in order, and the assignment
  of one property in an object literal: an existing property keeps its place, a new one
  goes last.
\<close>

fun own_props :: "jsval \<Rightarrow> (jsstring \<times> jsval) list" where
  "own_props (JObj kvs) = kvs"
| "own_props (JArr xs) = zip (map dec_text [0..<length xs]) xs"
| "own_props (JStr s) = zip (map dec_text [0..<length s]) (map (\<lambda>c. JStr [c]) s)"
| "own_props v = []"

fun put_prop :: "jsstring \<Rightarrow> jsval \<Rightarrow> (jsstring \<times> jsval) list \<Rightarrow> (jsstring \<times> jsval) list" where
  "put_prop k v [] = [(k, v)]"
| "put_prop k v ((k', v') # ps) =
     (if k' = k then (k, v) # ps else (k', v') # put_prop k v ps)"

text \<open>
  \<^verbatim>\<open>String.prototype.trim\<close> removes the white space and line terminators of
  ECMAScript from both ends.
\<close>

definition is_ws :: "16 word \<Rightarrow> bool" where
  "is_ws c \<longleftrightarrow>
     c \<in> {0x09, 0x0A, 0x0B, 0x0C, 0x0D, 0x20, 0xA0, 0x1680,
          0x2028, 0x2029, 0x202F, 0x205F, 0x3000, 0xFEFF}
     \<or> (0x2000 \<le> c \<and> c \<le> 0x200A)"

definition trim :: "jsstring \<Rightarrow> jsstring" where
  "trim s = rev (dropWhile is_ws (rev (dropWhile is_ws s)))"

section \<open>The chatbot front end: cleaning the sources of an answer\<close>

text \<open>
  \<^verbatim>\<open>local-rag-chatbot/frontend/src/App.jsx\<close>, \<^verbatim>\<open>handleAsk\<close>, the loop over
  \<^verbatim>\<open>rawSources\<close>. The constants of one iteration, named as in the source:
  \<^verbatim>\<open>
  const meta = src.metadata || {};
  const sourceName = src.source || meta.source;
  const chunkIndex = src.chunk_index ?? meta.chunk_index ?? meta.chunkIndex ?? null;
  const snippet = src.snippet || meta.snippet || "";
  const key = `${sourceName}::${chunkIndex ?? ""}::${snippet}`;
  \<close>
\<close>

definition meta :: "jsval \<Rightarrow> jsval" where
  "meta src = js_or (member src (lit ''metadata'')) (JObj [])"

definition sourceName :: "jsval \<Rightarrow> jsval" where
  "sourceName src = js_or (member src (lit ''source'')) (member (meta src) (lit ''source''))"

definition chunkIndex :: "jsval \<Rightarrow> jsval" where
  "chunkIndex src =
     js_coalesce
       (js_coalesce
          (js_coalesce (member src (lit ''chunk_index'')) (member (meta src) (lit ''chunk_index'')))
          (member (meta src) (lit ''chunkIndex'')))
       JNull"

definition snippet :: "jsval \<Rightarrow> jsval" where
  "snippet src =
     js_or (js_or (member src (lit ''snippet'')) (member (meta src) (lit ''snippet''))) (JStr [])"

definition key :: "(real \<Rightarrow> jsstring) \<Rightarrow> jsval \<Rightarrow> jsval \<Rightarrow> jsval \<Rightarrow> js_error + jsstring" where
  "key nts sn ci sp =
     (case to_string nts sn of
        Inl e \<Rightarrow> Inl e
      | Inr a \<Rightarrow>
          (case to_string nts (js_coalesce ci (JStr [])) of
             Inl e \<Rightarrow> Inl e
           | Inr b \<Rightarrow>
               (case to_string nts sp of
                  Inl e \<Rightarrow> Inl e
                | Inr c \<Rightarrow> Inr (a @ lit ''::'' @ b @ lit ''::'' @ c))))"

text \<open>The key of a raw entry, and whether the entry has a file name.\<close>

definition key_of :: "(real \<Rightarrow> jsstring) \<Rightarrow> jsval \<Rightarrow> js_error + jsstring" where
  "key_of nts src = key nts (sourceName src) (chunkIndex src) (snippet src)"

definition named :: "jsval \<Rightarrow> bool" where
  "named src = truthy (sourceName src)"

text \<open>
  The object pushed for an entry that is kept:
  \<^verbatim>\<open>{ ...src, source: sourceName, chunk_index: chunkIndex, snippet }\<close>.
\<close>

definition cleaned_entry :: "jsval \<Rightarrow> jsval" where
  "cleaned_entry src =
     JObj (put_prop (lit ''snippet'') (snippet src)
            (put_prop (lit ''chunk_index'') (chunkIndex src)
              (put_prop (lit ''source'') (sourceName src) (own_props src))))"

text \<open>
  The loop, with the set \<^verbatim>\<open>seen\<close> and the array \<^verbatim>\<open>cleanedSources\<close> as
  accumulators. Reading \<^verbatim>\<open>src.metadata\<close> of a \<^verbatim>\<open>null\<close> entry throws, and so
  does building the key of an entry whose fields do not convert to a string; the
  exception leaves the loop (the handler's \<^verbatim>\<open>catch\<close> then reports an error and no
  cleaned list is set).
\<close>

fun clean_loop ::
  "(real \<Rightarrow> jsstring) \<Rightarrow> jsval list \<Rightarrow> jsstring set \<Rightarrow> jsval list \<Rightarrow> js_error + jsval list" where
  "clean_loop nts [] seen cleaned = Inr cleaned"
| "clean_loop nts (src # rest) seen cleaned =
     (if nullish src then Inl TypeError
      else if \<not> truthy (sourceName src) then clean_loop nts rest seen cleaned
      else (case key nts (sourceName src) (chunkIndex src) (snippet src) of
              Inl e \<Rightarrow> Inl e
            | Inr k \<Rightarrow>
                (if k \<in> seen then clean_loop nts rest seen cleaned
                 else clean_loop nts rest (insert k seen) (cleaned @ [cleaned_entry src]))))"

definition cleanedSources :: "(real \<Rightarrow> jsstring) \<Rightarrow> jsval list \<Rightarrow> js_error + jsval list" where
  "cleanedSources nts rawSources = clean_loop nts rawSources {} []"

text \<open>
  The entries the loop keeps, as a list of raw entries (used in the proofs below): the
  same traversal without the exceptions.
\<close>

fun kept :: "(real \<Rightarrow> jsstring) \<Rightarrow> jsval list \<Rightarrow> (js_error + jsstring) set \<Rightarrow> jsval list" where
  "kept nts [] seen = []"
| "kept nts (src # rest) seen =
     (if named src \<and> key_of nts src \<notin> seen
      then src # kept nts rest (insert (key_of nts src) seen)
      else kept nts rest seen)"

text \<open>
  The same fields stated on their own, for the properties below: the source name, chunk
  index and snippet of a raw entry are looked for at the top level first and in its
  \<^verbatim>\<open>metadata\<close> next, and two entries count as the same when the three, converted
  to text (a missing chunk index as the empty text) and joined with \<^verbatim>\<open>::\<close>, give the
  same string.
\<close>

definition entry_metadata :: "jsval \<Rightarrow> jsval" where
  "entry_metadata x =
     (case find truthy [member x (lit ''metadata'')] of Some m \<Rightarrow> m | None \<Rightarrow> JObj [])"

definition entry_source :: "jsval \<Rightarrow> jsval" where
  "entry_source x =
     (case find truthy [member x (lit ''source'')] of
        Some v \<Rightarrow> v
      | None \<Rightarrow> member (entry_metadata x) (lit ''source''))"

definition entry_chunk_index :: "jsval \<Rightarrow> jsval" where
  "entry_chunk_index x =
     (case find (\<lambda>v. \<not> nullish v)
             [member x (lit ''chunk_index''), member (entry_metadata x) (lit ''chunk_index''),
              member (entry_metadata x) (lit ''chunkIndex'')] of
        Some v \<Rightarrow> v
      | None \<Rightarrow> JNull)"

definition entry_snippet :: "jsval \<Rightarrow> jsval" where
  "entry_snippet x =
     (case find truthy [member x (lit ''snippet''), member (entry_metadata x) (lit ''snippet'')] of
        Some v \<Rightarrow> v
      | None \<Rightarrow> JStr [])"

definition joined_key :: "(real \<Rightarrow> jsstring) \<Rightarrow> jsval \<times> jsval \<times> jsval \<Rightarrow> js_error + jsstring" where
  "joined_key nts f =
     (case f of (s, c, p) \<Rightarrow>
        (case (to_string nts s, to_string nts (if nullish c then JStr [] else c), to_string nts p) of
           (Inr a, Inr b, Inr d) \<Rightarrow> Inr (concat [a, lit ''::'', b, lit ''::'', d])
         | _ \<Rightarrow> Inl TypeError))"

definition entry_key :: "(real \<Rightarrow> jsstring) \<Rightarrow> jsval \<Rightarrow> js_error + jsstring" where
  "entry_key nts x = joined_key nts (entry_source x, entry_chunk_index x, entry_snippet x)"

section \<open>The calendar dashboard\<close>

text \<open>
  \<^verbatim>\<open>Personal-assistant-AI Agent/frontend/calendar-agent-dashboard/src/App.jsx\<close>. The
  state of the running page is the React state of \<^verbatim>\<open>App\<close> together with what the
  handlers do to the outside: the requests sent, in order, the state of the backend that
  answers them, and whether the default action of the submit event was prevented. The
  backend is a parameter \<open>srv\<close>: it answers a request with the data of the response, or
  with \<open>None\<close> when the promise of axios is rejected.
\<close>

datatype request = Get jsstring | Post jsstring jsval

record 's app =
  tasks :: jsval
  todayPlan :: jsval
  loadingPlan :: bool
  scheduleLoading :: bool
  clearLoading :: bool
  llmCommand :: jsstring
  llmResult :: jsval
  error :: jsstring
  backend :: 's
  sent :: "request list"
  defaultPrevented :: bool

definition API_BASE :: jsstring where
  "API_BASE = lit ''http://localhost:8000''"

definition axios :: "('s \<Rightarrow> request \<Rightarrow> jsval option \<times> 's) \<Rightarrow> request \<Rightarrow> 's app \<Rightarrow> jsval option \<times> 's app" where
  "axios srv r a =
     (case srv (backend a) r of
        (res, s') \<Rightarrow> (res, a\<lparr>backend := s', sent := sent a @ [r]\<rparr>))"

definition fetchTodayPlan :: "('s \<Rightarrow> request \<Rightarrow> jsval option \<times> 's) \<Rightarrow> 's app \<Rightarrow> 's app" where
  "fetchTodayPlan srv a =
     (case axios srv (Get (API_BASE @ lit ''/today_plan'')) (a\<lparr>loadingPlan := True, error := []\<rparr>) of
        (Some data, a') \<Rightarrow> a'\<lparr>todayPlan := data, loadingPlan := False\<rparr>
      | (None, a') \<Rightarrow>
          a'\<lparr>error := lit ''Failed to load today'' @ [0x27] @ lit ''s plan.'', loadingPlan := False\<rparr>)"

text \<open>\<^verbatim>\<open>handleScheduleRange = async (days = 7)\<close>: an \<^verbatim>\<open>undefined\<close> argument is 7.\<close>

definition handleScheduleRange ::
  "('s \<Rightarrow> request \<Rightarrow> jsval option \<times> 's) \<Rightarrow> jsval \<Rightarrow> 's app \<Rightarrow> 's app" where
  "handleScheduleRange srv days_arg a =
     (let days = (if days_arg = JUndefined then JNum 7 else days_arg);
          payload = JObj [(lit ''start_date'', JNull), (lit ''days'', days),
                          (lit ''allow_reschedule'', JBool True)]
      in case axios srv (Post (API_BASE @ lit ''/schedule'') payload)
                (a\<lparr>scheduleLoading := True, error := []\<rparr>) of
           (Some data, a') \<Rightarrow> (fetchTodayPlan srv a')\<lparr>llmResult := data, scheduleLoading := False\<rparr>
         | (None, a') \<Rightarrow> a'\<lparr>error := lit ''Failed to schedule range.'', scheduleLoading := False\<rparr>)"

definition handleClearRange ::
  "('s \<Rightarrow> request \<Rightarrow> jsval option \<times> 's) \<Rightarrow> jsval \<Rightarrow> 's app \<Rightarrow> 's app" where
  "handleClearRange srv days_arg a =
     (let days = (if days_arg = JUndefined then JNum 7 else days_arg);
          payload = JObj [(lit ''start_date'', JNull), (lit ''days'', days)]
      in case axios srv (Post (API_BASE @ lit ''/clear'') payload)
                (a\<lparr>clearLoading := True, error := []\<rparr>) of
           (Some data, a') \<Rightarrow> (fetchTodayPlan srv a')\<lparr>llmResult := data, clearLoading := False\<rparr>
         | (None, a') \<Rightarrow> a'\<lparr>error := lit ''Failed to clear range.'', clearLoading := False\<rparr>)"

text \<open>
  \<^verbatim>\<open>handleLlmCommand\<close>: \<^verbatim>\<open>e.preventDefault()\<close>, then
  \<^verbatim>\<open>if (!llmCommand.trim()) return;\<close> before anything else.
\<close>

definition handleLlmCommand :: "('s \<Rightarrow> request \<Rightarrow> jsval option \<times> 's) \<Rightarrow> 's app \<Rightarrow> 's app" where
  "handleLlmCommand srv a =
     (let a0 = a\<lparr>defaultPrevented := True\<rparr>
      in if \<not> truthy (JStr (trim (llmCommand a))) then a0
         else (case axios srv
                      (Post (API_BASE @ lit ''/command_llm'')
                         (JObj [(lit ''command'', JStr (llmCommand a))]))
                      (a0\<lparr>error := [], llmResult := JNull\<rparr>) of
                 (Some data, a') \<Rightarrow> fetchTodayPlan srv (a'\<lparr>llmResult := data, llmCommand := []\<rparr>)
               | (None, a') \<Rightarrow> a'\<lparr>error := lit ''Failed to send LLM command.''\<rparr>))"

section \<open>The scheduling core: resolving one day's conflicts\<close>

text \<open>
  The dashboard above talks to the backend of the Personal Scheduler Agent, whose code is
  not among the sources. The definitions of this section are written from the
  specification of that backend (its data model and its ConflictResolver); times are
  minutes, a date is a day number, and the date \<open>d\<close> starts at minute \<open>d * 1440\<close>.
\<close>

text \<open>Modelled from the spec: the weekdays of a FixedTask's \<open>days\<close> set; the backend's
  type is missing.\<close>

datatype weekday = Mon | Tue | Wed | Thu | Fri | Sat | Sun

text \<open>Modelled from the spec: FixedTask of the data model (the backend's class is
  missing): name, start time of day in minutes after midnight, duration in minutes, and
  the weekdays it recurs on.\<close>

record FixedTask =
  name :: string
  start_time :: int
  duration_minutes :: int
  days :: "weekday set"

text \<open>Modelled from the spec: CalendarEvent of the data model (the backend's class is
  missing): start and end as timestamps in minutes, title, external id.\<close>

record CalendarEvent =
  ev_start :: int
  ev_end :: int
  title :: string
  external_id :: nat

text \<open>Modelled from the spec: the three statuses of a ScheduleDecision; the backend's
  type is missing.\<close>

datatype decision_status = scheduled | scheduled_rescheduled | skipped

text \<open>Modelled from the spec: ScheduleDecision of the data model (the backend's class
  is missing); start and end are absent when the task is skipped.\<close>

record ScheduleDecision =
  task_name :: string
  status :: decision_status
  scheduled_start :: "int option"
  scheduled_end :: "int option"
  reason :: string

text \<open>Modelled from the spec: DayPlan of the data model (the backend's class is
  missing): a date and the ordered decisions of its tasks.\<close>

record DayPlan =
  date :: int
  decisions :: "ScheduleDecision list"

text \<open>Modelled from the spec: the failure of a CalendarGateway call; the backend's
  exception is missing.\<close>

datatype gateway_error = CalendarUnavailable

type_synonym window = "int \<times> int"

text \<open>Modelled from the spec: the overlap test of two half-open windows \<open>[start, end)\<close>
  used by the missing ConflictResolver.\<close>

definition overlaps :: "window \<Rightarrow> window \<Rightarrow> bool" where
  "overlaps a b \<longleftrightarrow> fst a < snd b \<and> fst b < snd a"

text \<open>Modelled from the spec: step 1 of the missing ConflictResolver, the native window
  \<open>[start, start + duration)\<close> of a task on a date.\<close>

definition native_window :: "int \<Rightarrow> FixedTask \<Rightarrow> window" where
  "native_window d t = (d * 1440 + start_time t, d * 1440 + start_time t + duration_minutes t)"

text \<open>Modelled from the spec: the default day boundary of the missing ConflictResolver,
  the end of the day.\<close>

definition end_of_day :: "int \<Rightarrow> int" where
  "end_of_day d = (d + 1) * 1440"

text \<open>Modelled from the spec: step 2 of the missing ConflictResolver, the overlap test
  against (a) the calendar events fetched for the date and (b) the windows already
  committed to earlier tasks of the run, in that order; each conflict with the name of
  the event or task it belongs to.\<close>

definition conflicts ::
  "window \<Rightarrow> CalendarEvent list \<Rightarrow> (string \<times> window) list \<Rightarrow> (string \<times> window) list" where
  "conflicts w events committed =
     filter (\<lambda>c. overlaps w (snd c))
       (map (\<lambda>ev. (title ev, (ev_start ev, ev_end ev))) events @ committed)"

text \<open>Modelled from the spec: a window is free when step 2 of the missing
  ConflictResolver finds no overlap.\<close>

definition is_free :: "window \<Rightarrow> CalendarEvent list \<Rightarrow> (string \<times> window) list \<Rightarrow> bool" where
  "is_free w events committed \<longleftrightarrow> conflicts w events committed = []"

text \<open>Modelled from the spec: the probing loop of step 5 of the missing ConflictResolver,
  forward in steps of 15 minutes, each probe checked against the same two overlap
  sources, until a free window of the duration is found or the day boundary is
  reached.\<close>

function probe ::
  "int \<Rightarrow> int \<Rightarrow> CalendarEvent list \<Rightarrow> (string \<times> window) list \<Rightarrow> int \<Rightarrow> int option" where
  "probe boundary dur events committed p =
     (if boundary < p + dur then None
      else if is_free (p, p + dur) events committed then Some p
      else probe boundary dur events committed (p + 15))"
  by pat_completeness auto
termination
  by (relation "measure (\<lambda>(boundary, dur, events, committed, p). nat (boundary - dur - p + 1))")
    auto

text \<open>Modelled from the spec: the skipped decision of the missing ConflictResolver, with
  its reason.\<close>

definition skip_decision :: "FixedTask \<Rightarrow> string \<Rightarrow> ScheduleDecision" where
  "skip_decision t why =
     \<lparr>task_name = name t, status = skipped, scheduled_start = None, scheduled_end = None,
      reason = why\<rparr>"

text \<open>Modelled from the spec: committing a window in the missing ConflictResolver (steps
  3, 5 and 6). The gateway's \<open>createEvent\<close> is a parameter, with the state \<open>g\<close> of the
  calendar behind it; when it fails the task is skipped with the failure as its reason
  and the window is not committed.\<close>

definition commit ::
  "('g \<Rightarrow> FixedTask \<Rightarrow> window \<Rightarrow> (gateway_error + nat) \<times> 'g) \<Rightarrow> FixedTask \<Rightarrow> window \<Rightarrow>
   decision_status \<Rightarrow> string \<Rightarrow> (string \<times> window) list \<Rightarrow> 'g \<Rightarrow>
   ScheduleDecision \<times> (string \<times> window) list \<times> 'g" where
  "commit createEvent t w st why committed g =
     (case createEvent g t w of
        (Inr eid, g') \<Rightarrow>
          (\<lparr>task_name = name t, status = st, scheduled_start = Some (fst w),
            scheduled_end = Some (snd w), reason = why\<rparr>,
           committed @ [(name t, w)], g')
      | (Inl CalendarUnavailable, g') \<Rightarrow>
          (skip_decision t ''CalendarUnavailable'', committed, g'))"

text \<open>Modelled from the spec: steps 1 to 6 of the missing ConflictResolver for one task.
  The conflicting window is the first one that step 2 finds.\<close>

definition resolve_task ::
  "('g \<Rightarrow> FixedTask \<Rightarrow> window \<Rightarrow> (gateway_error + nat) \<times> 'g) \<Rightarrow> int \<Rightarrow> int \<Rightarrow>
   CalendarEvent list \<Rightarrow> bool \<Rightarrow> FixedTask \<Rightarrow> (string \<times> window) list \<Rightarrow> 'g \<Rightarrow>
   ScheduleDecision \<times> (string \<times> window) list \<times> 'g" where
  "resolve_task createEvent boundary d events allow_reschedule t committed g =
     (case conflicts (native_window d t) events committed of
        [] \<Rightarrow> commit createEvent t (native_window d t) scheduled [] committed g
      | c # cs \<Rightarrow>
          (if \<not> allow_reschedule
           then (skip_decision t (''conflict with '' @ fst c), committed, g)
           else (case probe boundary (duration_minutes t) events committed (snd (snd c)) of
                   None \<Rightarrow> (skip_decision t ''no free slot'', committed, g)
                 | Some p \<Rightarrow>
                     commit createEvent t (p, p + duration_minutes t) scheduled_rescheduled
                       (''conflict with '' @ fst c) committed g)))"

text \<open>Modelled from the spec: the missing ConflictResolver's loop over the tasks, in the
  order the RoutineStore gives them, threading the committed windows.\<close>

fun resolve_tasks ::
  "('g \<Rightarrow> FixedTask \<Rightarrow> window \<Rightarrow> (gateway_error + nat) \<times> 'g) \<Rightarrow> int \<Rightarrow> int \<Rightarrow>
   CalendarEvent list \<Rightarrow> bool \<Rightarrow> FixedTask list \<Rightarrow> (string \<times> window) list \<Rightarrow> 'g \<Rightarrow>
   ScheduleDecision list \<times> 'g" where
  "resolve_tasks createEvent boundary d events allow_reschedule [] committed g = ([], g)"
| "resolve_tasks createEvent boundary d events allow_reschedule (t # ts) committed g =
     (case resolve_task createEvent boundary d events allow_reschedule t committed g of
        (dec, committed', g') \<Rightarrow>
          (case resolve_tasks createEvent boundary d events allow_reschedule ts committed' g' of
             (decs, g'') \<Rightarrow> (dec # decs, g'')))"

text \<open>Modelled from the spec: the missing ConflictResolver: a date, the ordered tasks of
  its weekday, the events fetched for it and \<open>allow_reschedule\<close> give a DayPlan.\<close>

definition ConflictResolver ::
  "('g \<Rightarrow> FixedTask \<Rightarrow> window \<Rightarrow> (gateway_error + nat) \<times> 'g) \<Rightarrow> int \<Rightarrow> int \<Rightarrow>
   FixedTask list \<Rightarrow> CalendarEvent list \<Rightarrow> bool \<Rightarrow> 'g \<Rightarrow> DayPlan \<times> 'g" where
  "ConflictResolver createEvent boundary d ts events allow_reschedule g =
     (case resolve_tasks createEvent boundary d events allow_reschedule ts [] g of
        (decs, g') \<Rightarrow> (\<lparr>date = d, decisions = decs\<rparr>, g'))"

text \<open>Two decisions are apart when, both being placed, their windows do not overlap
  (used in the proofs below).\<close>

definition apart :: "ScheduleDecision \<Rightarrow> ScheduleDecision \<Rightarrow> bool" where
  "apart a b \<longleftrightarrow>
     (\<forall>s e s' e'. status a \<noteq> skipped \<and> scheduled_start a = Some s \<and> scheduled_end a = Some e \<and>
        status b \<noteq> skipped \<and> scheduled_start b = Some s' \<and> scheduled_end b = Some e'
        \<longrightarrow> \<not> overlaps (s, e) (s', e'))"


declare probe.simps [simp del]

declare dec_text.simps [simp del]

section \<open>Properties of the chatbot's source cleaning\<close>

lemma names_distinct [simp]:
  "lit ''source'' \<noteq> lit ''chunk_index''" "lit ''source'' \<noteq> lit ''snippet''"
  "lit ''source'' \<noteq> lit ''metadata''" "lit ''chunk_index'' \<noteq> lit ''snippet''"
  "lit ''chunk_index'' \<noteq> lit ''metadata''" "lit ''snippet'' \<noteq> lit ''metadata''"
  "lit ''chunk_index'' \<noteq> lit ''source''" "lit ''snippet'' \<noteq> lit ''source''"
  "lit ''metadata'' \<noteq> lit ''source''" "lit ''snippet'' \<noteq> lit ''chunk_index''"
  "lit ''metadata'' \<noteq> lit ''chunk_index''" "lit ''metadata'' \<noteq> lit ''snippet''"
  by (simp_all add: lit_def)

lemma map_of_put_prop: "map_of (put_prop k v ps) k' = (if k' = k then Some v else map_of ps k')"
  by (induction ps) auto

lemma put_prop_same: "map_of ps k = Some v \<Longrightarrow> put_prop k v ps = ps"
  by (induction ps) (auto split: if_splits)

lemma named_is_object: "named src \<Longrightarrow> \<exists>kvs. src = JObj kvs"
  by (cases src) (simp_all add: named_def sourceName_def meta_def js_or_def)

lemma member_cleaned_entry:
  "member (cleaned_entry src) (lit ''source'') = sourceName src"
  "member (cleaned_entry src) (lit ''chunk_index'') = chunkIndex src"
  "member (cleaned_entry src) (lit ''snippet'') = snippet src"
  by (simp_all add: cleaned_entry_def map_of_put_prop)

lemma member_cleaned_entry_other:
  "p \<noteq> lit ''source'' \<Longrightarrow> p \<noteq> lit ''chunk_index'' \<Longrightarrow> p \<noteq> lit ''snippet'' \<Longrightarrow>
   member (cleaned_entry (JObj kvs)) p = member (JObj kvs) p"
  by (simp add: cleaned_entry_def map_of_put_prop)

lemma meta_cleaned_entry: "meta (cleaned_entry (JObj kvs)) = meta (JObj kvs)"
  unfolding meta_def by (subst member_cleaned_entry_other) simp_all

lemma sourceName_cleaned_entry:
  "named (JObj kvs) \<Longrightarrow> sourceName (cleaned_entry (JObj kvs)) = sourceName (JObj kvs)"
  unfolding named_def
  by (subst (1) sourceName_def) (simp add: member_cleaned_entry js_or_def)

lemma chunkIndex_nullish: "nullish (chunkIndex src) \<Longrightarrow> chunkIndex src = JNull \<and> nullish (member (meta src) (lit ''chunk_index'')) \<and> nullish (member (meta src) (lit ''chunkIndex''))"
  by (auto simp: chunkIndex_def js_coalesce_def split: if_splits)

lemma chunkIndex_cleaned_entry:
  "chunkIndex (cleaned_entry (JObj kvs)) = chunkIndex (JObj kvs)"
proof (cases "nullish (chunkIndex (JObj kvs))")
  case True
  from chunkIndex_nullish[OF this] show ?thesis
    by (subst (1) chunkIndex_def) (simp add: member_cleaned_entry meta_cleaned_entry js_coalesce_def)
next
  case False
  then show ?thesis
    by (subst (1) chunkIndex_def) (simp add: member_cleaned_entry meta_cleaned_entry js_coalesce_def)
qed

lemma snippet_falsy: "\<not> truthy (snippet src) \<Longrightarrow> snippet src = JStr [] \<and> \<not> truthy (member (meta src) (lit ''snippet''))"
  by (auto simp: snippet_def js_or_def split: if_splits)

lemma snippet_cleaned_entry:
  "snippet (cleaned_entry (JObj kvs)) = snippet (JObj kvs)"
proof (cases "truthy (snippet (JObj kvs))")
  case False
  from snippet_falsy[OF this] show ?thesis
    by (subst (1) snippet_def) (simp add: member_cleaned_entry meta_cleaned_entry js_or_def)
next
  case True
  then show ?thesis
    by (subst (1) snippet_def) (simp add: member_cleaned_entry meta_cleaned_entry js_or_def)
qed

lemma cleaned_entry_fixed:
  assumes "named src"
  shows "cleaned_entry (cleaned_entry src) = cleaned_entry src"
proof -
  from assms obtain kvs where src: "src = JObj kvs" using named_is_object by blast
  let ?e = "cleaned_entry src"
  have s: "sourceName ?e = sourceName src" "chunkIndex ?e = chunkIndex src" "snippet ?e = snippet src"
    using assms by (simp_all add: src sourceName_cleaned_entry chunkIndex_cleaned_entry snippet_cleaned_entry)
  obtain ps where ps: "?e = JObj ps" by (simp add: cleaned_entry_def)
  have l: "map_of ps (lit ''source'') = Some (sourceName src)"
     "map_of ps (lit ''chunk_index'') = Some (chunkIndex src)"
     "map_of ps (lit ''snippet'') = Some (snippet src)"
    using ps by (auto simp: cleaned_entry_def map_of_put_prop)
  have "cleaned_entry ?e = JObj (put_prop (lit ''snippet'') (snippet src)
            (put_prop (lit ''chunk_index'') (chunkIndex src)
              (put_prop (lit ''source'') (sourceName src) ps)))"
    by (subst cleaned_entry_def) (simp add: s ps[symmetric], simp add: ps)
  also have "\<dots> = JObj ps" by (simp add: put_prop_same l)
  finally show ?thesis by (simp add: ps)
qed

lemma key_of_cleaned_entry: "named src \<Longrightarrow> key_of nts (cleaned_entry src) = key_of nts src"
  using named_is_object[of src]
  by (auto simp: key_of_def sourceName_cleaned_entry chunkIndex_cleaned_entry snippet_cleaned_entry)

lemma named_cleaned_entry: "named src \<Longrightarrow> named (cleaned_entry src)"
  using named_is_object[of src] by (auto simp: named_def sourceName_cleaned_entry[unfolded named_def])

lemma not_nullish_cleaned_entry: "\<not> nullish (cleaned_entry src)"
  by (simp add: cleaned_entry_def)

lemma clean_loop_ok_iff:
  "(\<exists>out. clean_loop nts xs seen acc = Inr out) \<longleftrightarrow>
   (\<forall>x\<in>set xs. \<not> nullish x \<and> (named x \<longrightarrow> (\<exists>k. key_of nts x = Inr k)))"
proof (induction xs arbitrary: seen acc)
  case Nil
  then show ?case by simp
next
  case (Cons x xs)
  show ?case
    by (cases "key_of nts x") (auto simp: Cons.IH named_def key_of_def)
qed

lemma clean_loop_kept:
  "clean_loop nts xs seen acc = Inr out \<Longrightarrow>
   out = acc @ map cleaned_entry (kept nts xs (Inr ` seen))"
proof (induction xs arbitrary: seen acc)
  case Nil
  then show ?case by simp
next
  case (Cons x xs)
  show ?case
  proof (cases "key_of nts x")
    case (Inl e)
    with Cons.prems have "\<not> named x" "clean_loop nts xs seen acc = Inr out"
      by (auto simp: named_def key_of_def split: if_splits)
    with Cons.IH[of seen acc] show ?thesis by simp
  next
    case (Inr k)
    with Cons.prems Cons.IH[of seen acc] Cons.IH[of "insert k seen" "acc @ [cleaned_entry x]"]
    show ?thesis
      by (auto simp: named_def key_of_def split: if_splits)
  qed
qed

lemma kept_props:
  "distinct (map (key_of nts) (kept nts xs seen)) \<and>
   (\<forall>x\<in>set (kept nts xs seen). named x \<and> key_of nts x \<notin> seen \<and> x \<in> set xs)"
proof (induction xs arbitrary: seen)
  case Nil
  then show ?case by simp
next
  case (Cons x xs)
  from Cons.IH[of seen] Cons.IH[of "insert (key_of nts x) seen"]
  show ?case by auto
qed

lemma kept_nths:
  "kept nts xs seen =
   nths xs {i. i < length xs \<and> named (xs ! i) \<and> key_of nts (xs ! i) \<notin> seen \<and>
               (\<forall>j<i. named (xs ! j) \<longrightarrow> key_of nts (xs ! j) \<noteq> key_of nts (xs ! i))}"
proof (induction xs arbitrary: seen)
  case Nil
  then show ?case by simp
next
  case (Cons x xs)
  let ?A = "\<lambda>ys s. {i. i < length ys \<and> named (ys ! i) \<and> key_of nts (ys ! i) \<notin> s \<and>
               (\<forall>j<i. named (ys ! j) \<longrightarrow> key_of nts (ys ! j) \<noteq> key_of nts (ys ! i))}"
  show ?case
  proof (cases "named x \<and> key_of nts x \<notin> seen")
    case True
    have 0: "0 \<in> ?A (x # xs) seen" using True by simp
    have sh: "{j. Suc j \<in> ?A (x # xs) seen} = ?A xs (insert (key_of nts x) seen)"
      using True by (auto simp: All_less_Suc2)
    show ?thesis
      using True by (simp only: kept.simps if_True nths_Cons 0 sh Cons.IH) simp
  next
    case False
    have 0: "0 \<notin> ?A (x # xs) seen" using False by auto
    have sh: "{j. Suc j \<in> ?A (x # xs) seen} = ?A xs seen"
      using False by (auto simp: All_less_Suc2)
    show ?thesis
      using False by (simp only: kept.simps if_False nths_Cons 0 sh Cons.IH) simp
  qed
qed

lemma clean_loop_fixed:
  "\<forall>y\<in>set ys. named y \<and> (\<exists>k. key_of nts y = Inr k \<and> k \<notin> seen) \<Longrightarrow>
   distinct (map (key_of nts) ys) \<Longrightarrow>
   clean_loop nts (map cleaned_entry ys) seen acc = Inr (acc @ map cleaned_entry ys)"
proof (induction ys arbitrary: seen acc)
  case Nil
  then show ?case by simp
next
  case (Cons y ys)
  from Cons.prems obtain k where k: "named y" "key_of nts y = Inr k" "k \<notin> seen" by auto
  let ?e = "cleaned_entry y"
  have e: "\<not> nullish ?e" "truthy (sourceName ?e)"
    "key nts (sourceName ?e) (chunkIndex ?e) (snippet ?e) = Inr k" "cleaned_entry ?e = ?e"
    using k named_cleaned_entry[of y] key_of_cleaned_entry[of y nts]
    by (simp_all add: not_nullish_cleaned_entry named_def key_of_def cleaned_entry_fixed)
  have rest: "\<forall>z\<in>set ys. named z \<and> (\<exists>k'. key_of nts z = Inr k' \<and> k' \<notin> insert k seen)"
  proof
    fix z assume z: "z \<in> set ys"
    with Cons.prems obtain k' where k': "named z" "key_of nts z = Inr k'" "k' \<notin> seen" by auto
    from z Cons.prems(2) have "key_of nts z \<noteq> key_of nts y" by (metis distinct.simps(2) image_eqI list.simps(9) list.set_map)
    with k k' show "named z \<and> (\<exists>k'. key_of nts z = Inr k' \<and> k' \<notin> insert k seen)" by auto
  qed
  have "clean_loop nts (map cleaned_entry (y # ys)) seen acc =
        clean_loop nts (map cleaned_entry ys) (insert k seen) (acc @ [?e])"
    using e k by simp
  also have "\<dots> = Inr ((acc @ [?e]) @ map cleaned_entry ys)"
    using Cons.prems by (intro Cons.IH rest) simp
  finally show ?case by simp
qed

lemma distinct_map_outer: "distinct (map (\<lambda>x. g (h x)) xs) \<Longrightarrow> distinct (map h xs)"
  by (induction xs) auto


lemma entry_metadata_eq: "entry_metadata x = meta x"
  by (simp add: entry_metadata_def meta_def js_or_def)

lemma entry_source_eq: "entry_source x = sourceName x"
  by (simp add: entry_source_def sourceName_def js_or_def entry_metadata_eq)

lemma entry_chunk_index_eq: "entry_chunk_index x = chunkIndex x"
  by (simp add: entry_chunk_index_def chunkIndex_def js_coalesce_def entry_metadata_eq)

lemma entry_snippet_eq: "entry_snippet x = snippet x"
  by (simp add: entry_snippet_def snippet_def js_or_def entry_metadata_eq)

lemma only_TypeError: "(e::js_error) = TypeError"
  by (cases e) simp

lemma joined_key_eq: "joined_key nts (s, c, p) = key nts s c p"
  by (cases "to_string nts s"; cases "to_string nts (if nullish c then JStr [] else c)";
      cases "to_string nts p")
     (auto simp: joined_key_def key_def js_coalesce_def only_TypeError[symmetric])

lemma entry_key_eq: "entry_key nts x = key_of nts x"
  by (simp add: entry_key_def key_of_def joined_key_eq entry_source_eq entry_chunk_index_eq
        entry_snippet_eq)

lemma member_cleaned_entry_all:
  "member (cleaned_entry (JObj kvs)) p =
     (if p = lit ''source'' then sourceName (JObj kvs)
      else if p = lit ''chunk_index'' then chunkIndex (JObj kvs)
      else if p = lit ''snippet'' then snippet (JObj kvs)
      else member (JObj kvs) p)"
  by (simp add: cleaned_entry_def map_of_put_prop)

text \<open>
  C10. Whenever the cleaning loop of \<^verbatim>\<open>handleAsk\<close> completes on a list of raw
  sources: no cleaned entry lacks a source name; no two cleaned entries have the same
  source, chunk index and snippet, nor the same joined key; the cleaned entries are, in
  the original order, the named raw entries that no earlier named entry shares its joined
  key with, each an object that reads as the raw entry does except that
  \<^verbatim>\<open>source\<close>, \<^verbatim>\<open>chunk_index\<close> and \<^verbatim>\<open>snippet\<close> hold the fields found for
  it; and cleaning the cleaned list again returns it unchanged. The key is the joined
  string and not the triple: two entries whose fields differ and join to the same string
  are one entry after cleaning.
\<close>

theorem cleanedSources_first_of_each_key:
  assumes "cleanedSources nts rawSources = Inr cleaned"
  shows "(\<forall>e\<in>set cleaned. truthy (member e (lit ''source''))) \<and>
         distinct (map (\<lambda>e. (member e (lit ''source''), member e (lit ''chunk_index''),
                              member e (lit ''snippet''))) cleaned) \<and>
         distinct (map (\<lambda>e. joined_key nts (member e (lit ''source''),
                              member e (lit ''chunk_index''), member e (lit ''snippet''))) cleaned) \<and>
         list_all2
           (\<lambda>e x. (\<exists>kvs. e = JObj kvs) \<and>
              (\<forall>p. member e p =
                 (if p = lit ''source'' then entry_source x
                  else if p = lit ''chunk_index'' then entry_chunk_index x
                  else if p = lit ''snippet'' then entry_snippet x
                  else member x p)))
           cleaned
           (nths rawSources
              {i. i < length rawSources \<and> truthy (entry_source (rawSources ! i)) \<and>
                  (\<forall>j<i. truthy (entry_source (rawSources ! j)) \<longrightarrow>
                     entry_key nts (rawSources ! j) \<noteq> entry_key nts (rawSources ! i))}) \<and>
         cleanedSources nts cleaned = Inr cleaned"
proof -
  let ?ys = "kept nts rawSources {}"
  let ?I = "{i. i < length rawSources \<and> truthy (entry_source (rawSources ! i)) \<and>
                  (\<forall>j<i. truthy (entry_source (rawSources ! j)) \<longrightarrow>
                     entry_key nts (rawSources ! j) \<noteq> entry_key nts (rawSources ! i))}"
  have out: "cleaned = map cleaned_entry ?ys"
    using clean_loop_kept[of nts rawSources "{}" "[]" cleaned] assms
    by (simp add: cleanedSources_def)
  have ok: "\<forall>x\<in>set rawSources. \<not> nullish x \<and> (named x \<longrightarrow> (\<exists>k. key_of nts x = Inr k))"
    using clean_loop_ok_iff[of nts rawSources "{}" "[]"] assms
    by (simp add: cleanedSources_def)
  have ys: "distinct (map (key_of nts) ?ys)" "\<forall>x\<in>set ?ys. named x \<and> x \<in> set rawSources"
    using kept_props[of nts rawSources "{}"] by auto
  have keys: "map (\<lambda>e. joined_key nts (member e (lit ''source''),
                 member e (lit ''chunk_index''), member e (lit ''snippet''))) cleaned
              = map (key_of nts) ?ys"
    by (simp add: out member_cleaned_entry key_of_def joined_key_eq)
  have a: "\<forall>e\<in>set cleaned. truthy (member e (lit ''source''))"
    using ys(2) by (auto simp: out member_cleaned_entry named_def)
  have b: "distinct (map (\<lambda>e. joined_key nts (member e (lit ''source''),
                 member e (lit ''chunk_index''), member e (lit ''snippet''))) cleaned)"
    using ys(1) by (simp only: keys)
  have c: "distinct (map (\<lambda>e. (member e (lit ''source''), member e (lit ''chunk_index''),
                              member e (lit ''snippet''))) cleaned)"
    using b distinct_map_outer[of "joined_key nts"
         "\<lambda>e. (member e (lit ''source''), member e (lit ''chunk_index''), member e (lit ''snippet''))"
         cleaned]
    by simp
  have idx: "?ys = nths rawSources ?I"
    using kept_nths[of nts rawSources "{}"]
    by (simp add: entry_key_eq entry_source_eq named_def)
  have "list_all2
           (\<lambda>e x. (\<exists>kvs. e = JObj kvs) \<and>
              (\<forall>p. member e p =
                 (if p = lit ''source'' then entry_source x
                  else if p = lit ''chunk_index'' then entry_chunk_index x
                  else if p = lit ''snippet'' then entry_snippet x
                  else member x p)))
           (map cleaned_entry ?ys) ?ys"
  proof (rule list_all2_all_nthI)
    show "length (map cleaned_entry ?ys) = length ?ys" by simp
  next
    fix n assume "n < length (map cleaned_entry ?ys)"
    then have n: "n < length ?ys" by simp
    then have "named (?ys ! n)" using ys(2) by simp
    then obtain kvs where kvs: "?ys ! n = JObj kvs" using named_is_object by blast
    have "\<exists>ps. cleaned_entry (JObj kvs) = JObj ps" by (simp add: cleaned_entry_def)
    then show "(\<exists>ps. map cleaned_entry ?ys ! n = JObj ps) \<and>
              (\<forall>p. member (map cleaned_entry ?ys ! n) p =
                 (if p = lit ''source'' then entry_source (?ys ! n)
                  else if p = lit ''chunk_index'' then entry_chunk_index (?ys ! n)
                  else if p = lit ''snippet'' then entry_snippet (?ys ! n)
                  else member (?ys ! n) p))"
      using n
      by (simp only: nth_map kvs member_cleaned_entry_all entry_source_eq
            entry_chunk_index_eq entry_snippet_eq) simp
  qed
  then have d: "list_all2
           (\<lambda>e x. (\<exists>kvs. e = JObj kvs) \<and>
              (\<forall>p. member e p =
                 (if p = lit ''source'' then entry_source x
                  else if p = lit ''chunk_index'' then entry_chunk_index x
                  else if p = lit ''snippet'' then entry_snippet x
                  else member x p)))
           cleaned (nths rawSources ?I)"
    using idx out by simp
  have "\<forall>y\<in>set ?ys. named y \<and> (\<exists>k. key_of nts y = Inr k \<and> k \<notin> {})"
    using ys(2) ok by auto
  then have e: "cleanedSources nts cleaned = Inr cleaned"
    using clean_loop_fixed[of ?ys nts "{}" "[]"] ys(1)
    by (simp add: cleanedSources_def out)
  from a b c d e show ?thesis by blast
qed

theorem cleanedSources_first_of_each_key_witness:
  "cleanedSources (\<lambda>x. dec_text (nat \<lfloor>x\<rfloor>))
     [JObj [(lit ''source'', JStr (lit ''a.pdf'')), (lit ''chunk_index'', JNum 1),
            (lit ''snippet'', JStr (lit ''x''))],
      JObj [(lit ''source'', JStr (lit ''a.pdf'')), (lit ''chunk_index'', JNum 2),
            (lit ''snippet'', JStr (lit ''y''))],
      JObj [(lit ''metadata'', JObj [(lit ''source'', JStr (lit ''b.pdf'')),
               (lit ''chunkIndex'', JNum 3), (lit ''snippet'', JStr (lit ''z''))])],
      JObj [(lit ''metadata'', JObj [(lit ''source'', JStr (lit ''a.pdf'')),
               (lit ''chunk_index'', JNum 1), (lit ''snippet'', JStr (lit ''x''))])],
      JObj [(lit ''snippet'', JStr (lit ''no name''))]] =
   Inr [JObj [(lit ''source'', JStr (lit ''a.pdf'')), (lit ''chunk_index'', JNum 1),
              (lit ''snippet'', JStr (lit ''x''))],
        JObj [(lit ''source'', JStr (lit ''a.pdf'')), (lit ''chunk_index'', JNum 2),
              (lit ''snippet'', JStr (lit ''y''))],
        JObj [(lit ''metadata'', JObj [(lit ''source'', JStr (lit ''b.pdf'')),
                 (lit ''chunkIndex'', JNum 3), (lit ''snippet'', JStr (lit ''z''))]),
              (lit ''source'', JStr (lit ''b.pdf'')), (lit ''chunk_index'', JNum 3),
              (lit ''snippet'', JStr (lit ''z''))]] \<and>
   cleanedSources (\<lambda>x. dec_text (nat \<lfloor>x\<rfloor>))
     [JObj [(lit ''source'', JStr (lit ''a.pdf'')), (lit ''chunk_index'', JNum 1),
              (lit ''snippet'', JStr (lit ''x''))],
        JObj [(lit ''source'', JStr (lit ''a.pdf'')), (lit ''chunk_index'', JNum 2),
              (lit ''snippet'', JStr (lit ''y''))],
        JObj [(lit ''metadata'', JObj [(lit ''source'', JStr (lit ''b.pdf'')),
                 (lit ''chunkIndex'', JNum 3), (lit ''snippet'', JStr (lit ''z''))]),
              (lit ''source'', JStr (lit ''b.pdf'')), (lit ''chunk_index'', JNum 3),
              (lit ''snippet'', JStr (lit ''z''))]] =
   Inr [JObj [(lit ''source'', JStr (lit ''a.pdf'')), (lit ''chunk_index'', JNum 1),
              (lit ''snippet'', JStr (lit ''x''))],
        JObj [(lit ''source'', JStr (lit ''a.pdf'')), (lit ''chunk_index'', JNum 2),
              (lit ''snippet'', JStr (lit ''y''))],
        JObj [(lit ''metadata'', JObj [(lit ''source'', JStr (lit ''b.pdf'')),
                 (lit ''chunkIndex'', JNum 3), (lit ''snippet'', JStr (lit ''z''))]),
              (lit ''source'', JStr (lit ''b.pdf'')), (lit ''chunk_index'', JNum 3),
              (lit ''snippet'', JStr (lit ''z''))]]"
proof -
  have run: "cleanedSources (\<lambda>x. dec_text (nat \<lfloor>x\<rfloor>))
     [JObj [(lit ''source'', JStr (lit ''a.pdf'')), (lit ''chunk_index'', JNum 1),
            (lit ''snippet'', JStr (lit ''x''))],
      JObj [(lit ''source'', JStr (lit ''a.pdf'')), (lit ''chunk_index'', JNum 2),
            (lit ''snippet'', JStr (lit ''y''))],
      JObj [(lit ''metadata'', JObj [(lit ''source'', JStr (lit ''b.pdf'')),
               (lit ''chunkIndex'', JNum 3), (lit ''snippet'', JStr (lit ''z''))])],
      JObj [(lit ''metadata'', JObj [(lit ''source'', JStr (lit ''a.pdf'')),
               (lit ''chunk_index'', JNum 1), (lit ''snippet'', JStr (lit ''x''))])],
      JObj [(lit ''snippet'', JStr (lit ''no name''))]] =
   Inr [JObj [(lit ''source'', JStr (lit ''a.pdf'')), (lit ''chunk_index'', JNum 1),
              (lit ''snippet'', JStr (lit ''x''))],
        JObj [(lit ''source'', JStr (lit ''a.pdf'')), (lit ''chunk_index'', JNum 2),
              (lit ''snippet'', JStr (lit ''y''))],
        JObj [(lit ''metadata'', JObj [(lit ''source'', JStr (lit ''b.pdf'')),
                 (lit ''chunkIndex'', JNum 3), (lit ''snippet'', JStr (lit ''z''))]),
              (lit ''source'', JStr (lit ''b.pdf'')), (lit ''chunk_index'', JNum 3),
              (lit ''snippet'', JStr (lit ''z''))]]"
    by (simp add: cleanedSources_def sourceName_def chunkIndex_def snippet_def meta_def
          js_or_def js_coalesce_def key_def cleaned_entry_def lit_def dec_text.simps)
  from cleanedSources_first_of_each_key [OF run] run show ?thesis by blast
qed

theorem cleanedSources_key_collision_counterexample:
  "cleanedSources (\<lambda>x. dec_text (nat \<lfloor>x\<rfloor>))
     [JObj [(lit ''source'', JStr (lit ''a'')), (lit ''snippet'', JStr (lit ''::b''))],
      JObj [(lit ''source'', JStr (lit ''a::'')), (lit ''snippet'', JStr (lit ''b''))]] =
   Inr [JObj [(lit ''source'', JStr (lit ''a'')), (lit ''snippet'', JStr (lit ''::b'')),
              (lit ''chunk_index'', JNull)]] \<and>
   truthy (entry_source (JObj [(lit ''source'', JStr (lit ''a::'')),
                               (lit ''snippet'', JStr (lit ''b''))])) \<and>
   (entry_source (JObj [(lit ''source'', JStr (lit ''a::'')), (lit ''snippet'', JStr (lit ''b''))]),
    entry_chunk_index (JObj [(lit ''source'', JStr (lit ''a::'')), (lit ''snippet'', JStr (lit ''b''))]),
    entry_snippet (JObj [(lit ''source'', JStr (lit ''a::'')), (lit ''snippet'', JStr (lit ''b''))]))
   \<noteq>
   (entry_source (JObj [(lit ''source'', JStr (lit ''a'')), (lit ''snippet'', JStr (lit ''::b''))]),
    entry_chunk_index (JObj [(lit ''source'', JStr (lit ''a'')), (lit ''snippet'', JStr (lit ''::b''))]),
    entry_snippet (JObj [(lit ''source'', JStr (lit ''a'')), (lit ''snippet'', JStr (lit ''::b''))]))"
  by (simp add: cleanedSources_def sourceName_def chunkIndex_def snippet_def meta_def
        js_or_def js_coalesce_def key_def cleaned_entry_def lit_def
        entry_source_def entry_chunk_index_def entry_snippet_def entry_metadata_def)

text \<open>
  The dedupe key is a concatenation, so it does not separate every two triples: the
  separator may come from a field.
\<close>

lemma key_collision:
  "key nts (JStr (lit ''a'')) JNull (JStr (lit ''::b'')) =
   key nts (JStr (lit ''a::'')) JNull (JStr (lit ''b''))"
  by (simp add: key_def js_coalesce_def lit_def)

section \<open>Properties of the dashboard's handlers\<close>

lemma dropWhile_Nil_iff: "dropWhile P xs = [] \<longleftrightarrow> (\<forall>x\<in>set xs. P x)"
  by (induction xs) auto

lemma trim_empty_iff: "trim s = [] \<longleftrightarrow> (\<forall>c\<in>set s. is_ws c)"
proof
  assume "trim s = []"
  then have all: "\<forall>c\<in>set (dropWhile is_ws s). is_ws c"
    by (simp add: trim_def dropWhile_Nil_iff)
  have "dropWhile is_ws s = []"
  proof (rule ccontr)
    assume ne: "dropWhile is_ws s \<noteq> []"
    then have "\<not> is_ws (hd (dropWhile is_ws s))" by (rule hd_dropWhile)
    moreover have "hd (dropWhile is_ws s) \<in> set (dropWhile is_ws s)" using ne by simp
    ultimately show False using all by blast
  qed
  then show "\<forall>c\<in>set s. is_ws c" using dropWhile_Nil_iff[of is_ws s] by blast
next
  assume "\<forall>c\<in>set s. is_ws c"
  then show "trim s = []" by (auto simp: trim_def dest: set_dropWhileD)
qed

lemma sent_fetchTodayPlan:
  "sent (fetchTodayPlan srv a) = sent a @ [Get (API_BASE @ lit ''/today_plan'')]"
  by (auto simp: fetchTodayPlan_def axios_def split: prod.splits option.splits)

text \<open>
  C8. Whatever its argument, \<^verbatim>\<open>handleScheduleRange\<close> posts to \<^verbatim>\<open>/schedule\<close> the
  intent with \<^verbatim>\<open>start_date: null\<close>, the number of days it was given (7 when the
  argument is left out) and \<^verbatim>\<open>allow_reschedule: true\<close>, and \<^verbatim>\<open>handleClearRange\<close>
  posts to \<^verbatim>\<open>/clear\<close> the intent with \<^verbatim>\<open>start_date: null\<close> and the days; the only
  other request either of them sends is the reload of today's plan.
\<close>

theorem range_handlers_post_fixed_intents:
  "(\<exists>rest. sent (handleScheduleRange srv d a) =
        sent a @ Post (API_BASE @ lit ''/schedule'')
                  (JObj [(lit ''start_date'', JNull),
                         (lit ''days'', if d = JUndefined then JNum 7 else d),
                         (lit ''allow_reschedule'', JBool True)]) # rest \<and>
        set rest \<subseteq> {Get (API_BASE @ lit ''/today_plan'')}) \<and>
   (\<exists>rest. sent (handleClearRange srv d a) =
        sent a @ Post (API_BASE @ lit ''/clear'')
                  (JObj [(lit ''start_date'', JNull),
                         (lit ''days'', if d = JUndefined then JNum 7 else d)]) # rest \<and>
        set rest \<subseteq> {Get (API_BASE @ lit ''/today_plan'')})"
  by (auto simp: handleScheduleRange_def handleClearRange_def Let_def sent_fetchTodayPlan
        axios_def split: prod.splits option.splits)

theorem range_handlers_post_fixed_intents_witness:
  "sent (handleScheduleRange (\<lambda>(s::unit) r. (Some JNull, s)) (JNum 30)
           \<lparr>tasks = JArr [], todayPlan = JNull, loadingPlan = False, scheduleLoading = False,
            clearLoading = False, llmCommand = [], llmResult = JNull, error = [],
            backend = (), sent = [], defaultPrevented = False\<rparr>) =
     [Post (API_BASE @ lit ''/schedule'')
        (JObj [(lit ''start_date'', JNull), (lit ''days'', JNum 30),
               (lit ''allow_reschedule'', JBool True)]),
      Get (API_BASE @ lit ''/today_plan'')] \<and>
   sent (handleClearRange (\<lambda>(s::unit) r. (None, s)) JUndefined
           \<lparr>tasks = JArr [], todayPlan = JNull, loadingPlan = False, scheduleLoading = False,
            clearLoading = False, llmCommand = [], llmResult = JNull, error = [],
            backend = (), sent = [], defaultPrevented = False\<rparr>) =
     [Post (API_BASE @ lit ''/clear'')
        (JObj [(lit ''start_date'', JNull), (lit ''days'', JNum 7)])]"
  using range_handlers_post_fixed_intents
    [of "\<lambda>(s::unit) r. (Some JNull, s)" "JNum 30"
        "\<lparr>tasks = JArr [], todayPlan = JNull, loadingPlan = False, scheduleLoading = False,
            clearLoading = False, llmCommand = [], llmResult = JNull, error = [],
            backend = (), sent = [], defaultPrevented = False\<rparr>"]
  by (simp add: handleScheduleRange_def handleClearRange_def Let_def fetchTodayPlan_def axios_def)

text \<open>
  C9. When the command is empty or consists of white space only, \<^verbatim>\<open>handleLlmCommand\<close>
  sends nothing and changes no state (it only prevents the default action of the event);
  a request is sent only when the trimmed command is not empty, and then it is the POST
  of the command to \<^verbatim>\<open>/command_llm\<close>.
\<close>

theorem handleLlmCommand_blank:
  "(trim (llmCommand a) = [] \<longleftrightarrow> (\<forall>c\<in>set (llmCommand a). is_ws c)) \<and>
   ((\<forall>c\<in>set (llmCommand a). is_ws c) \<longrightarrow>
      handleLlmCommand srv a = a\<lparr>defaultPrevented := True\<rparr>) \<and>
   (sent (handleLlmCommand srv a) \<noteq> sent a \<longrightarrow> trim (llmCommand a) \<noteq> []) \<and>
   (trim (llmCommand a) \<noteq> [] \<longrightarrow>
      (\<exists>rest. sent (handleLlmCommand srv a) =
         sent a @ Post (API_BASE @ lit ''/command_llm'')
                    (JObj [(lit ''command'', JStr (llmCommand a))]) # rest))"
proof -
  have blank: "trim (llmCommand a) = [] \<Longrightarrow> handleLlmCommand srv a = a\<lparr>defaultPrevented := True\<rparr>"
    by (simp add: handleLlmCommand_def)
  have busy: "\<exists>rest. sent (handleLlmCommand srv a) =
         sent a @ Post (API_BASE @ lit ''/command_llm'')
                    (JObj [(lit ''command'', JStr (llmCommand a))]) # rest"
    if "trim (llmCommand a) \<noteq> []"
    using that
    by (auto simp: handleLlmCommand_def Let_def sent_fetchTodayPlan axios_def
             split: prod.splits option.splits)
  have quiet: "trim (llmCommand a) \<noteq> []" if "sent (handleLlmCommand srv a) \<noteq> sent a"
    using that blank by (cases "trim (llmCommand a) = []") simp_all
  show ?thesis
    using blank busy quiet trim_empty_iff[of "llmCommand a"] by blast
qed

theorem handleLlmCommand_blank_witness:
  "trim (lit ''  '' @ [0x2003, 0x0A]) = [] \<and>
   handleLlmCommand (\<lambda>(s::unit) r. (Some JNull, s))
      \<lparr>tasks = JArr [], todayPlan = JNull, loadingPlan = False, scheduleLoading = False,
       clearLoading = False, llmCommand = lit ''  '' @ [0x2003, 0x0A], llmResult = JNull,
       error = lit ''old'', backend = (), sent = [], defaultPrevented = False\<rparr> =
      \<lparr>tasks = JArr [], todayPlan = JNull, loadingPlan = False, scheduleLoading = False,
       clearLoading = False, llmCommand = lit ''  '' @ [0x2003, 0x0A], llmResult = JNull,
       error = lit ''old'', backend = (), sent = [], defaultPrevented = True\<rparr>"
proof -
  have ws: "\<forall>c\<in>set (lit ''  '' @ [0x2003, 0x0A]). is_ws c"
    by (simp add: lit_def is_ws_def)
  show ?thesis
    using ws handleLlmCommand_blank
      [of "\<lparr>tasks = JArr [], todayPlan = JNull, loadingPlan = False, scheduleLoading = False,
       clearLoading = False, llmCommand = lit ''  '' @ [0x2003, 0x0A], llmResult = JNull,
       error = lit ''old'', backend = (), sent = [], defaultPrevented = False\<rparr>"
          "\<lambda>(s::unit) r. (Some JNull, s)"]
    by simp
qed

section \<open>Properties of the scheduling core\<close>

lemma overlaps_sym: "overlaps a b \<longleftrightarrow> overlaps b a"
  by (auto simp: overlaps_def)

lemma is_free_iff:
  "is_free w events committed \<longleftrightarrow>
     (\<forall>ev\<in>set events. \<not> overlaps w (ev_start ev, ev_end ev)) \<and>
     (\<forall>c\<in>set committed. \<not> overlaps w (snd c))"
  by (auto simp: is_free_def conflicts_def filter_empty_conv)

lemma probe_Some:
  "probe boundary dur events committed p0 = Some p \<Longrightarrow>
   is_free (p, p + dur) events committed \<and> p + dur \<le> boundary \<and>
   (\<exists>k. p = p0 + 15 * int k \<and>
        (\<forall>j<k. \<not> is_free (p0 + 15 * int j, p0 + 15 * int j + dur) events committed))"
proof (induction boundary dur events committed p0 rule: probe.induct)
  case (1 boundary dur events committed p0)
  show ?case
  proof (cases "is_free (p0, p0 + dur) events committed")
    case True
    with "1.prems" have "p = p0" "p0 + dur \<le> boundary"
      by (auto simp: probe.simps[of boundary dur events committed p0] split: if_splits)
    with True show ?thesis by (auto intro: exI[of _ 0])
  next
    case False
    with "1.prems" have fit: "\<not> boundary < p0 + dur"
      and rec: "probe boundary dur events committed (p0 + 15) = Some p"
      by (auto simp: probe.simps[of boundary dur events committed p0] split: if_splits)
    from "1.IH"[OF fit False rec] obtain k where
      k: "is_free (p, p + dur) events committed" "p + dur \<le> boundary" "p = p0 + 15 + 15 * int k"
        "\<forall>j<k. \<not> is_free (p0 + 15 + 15 * int j, p0 + 15 + 15 * int j + dur) events committed"
      by auto
    have "\<forall>j<Suc k. \<not> is_free (p0 + 15 * int j, p0 + 15 * int j + dur) events committed"
    proof (intro allI impI)
      fix j assume j: "j < Suc k"
      show "\<not> is_free (p0 + 15 * int j, p0 + 15 * int j + dur) events committed"
      proof (cases j)
        case 0
        with False show ?thesis by simp
      next
        case (Suc j')
        with j k(4) have "\<not> is_free (p0 + 15 + 15 * int j', p0 + 15 + 15 * int j' + dur) events committed"
          by auto
        moreover have "p0 + 15 + 15 * int j' = p0 + 15 * int j" using Suc by simp
        ultimately show ?thesis by simp
      qed
    qed
    moreover have "p = p0 + 15 * int (Suc k)" using k(3) by simp
    ultimately show ?thesis using k(1,2) by blast
  qed
qed


lemma commit_cases:
  "commit createEvent t w st why committed g = (dec, committed', g') \<Longrightarrow>
   task_name dec = name t \<and>
   ((status dec = skipped \<and> scheduled_start dec = None \<and> scheduled_end dec = None \<and>
       reason dec = ''CalendarUnavailable'' \<and> committed' = committed \<and>
       (\<exists>e. fst (createEvent g t w) = Inl e)) \<or>
    (status dec = st \<and> scheduled_start dec = Some (fst w) \<and> scheduled_end dec = Some (snd w) \<and>
       reason dec = why \<and> committed' = committed @ [(name t, w)] \<and>
       (\<exists>eid. fst (createEvent g t w) = Inr eid)))"
  by (auto simp: commit_def skip_decision_def split: prod.splits sum.splits gateway_error.splits)

lemma resolve_task_cases:
  assumes "resolve_task createEvent boundary d events allow t committed g = (dec, committed', g')"
  shows "task_name dec = name t \<and>
   ((status dec = skipped \<and> scheduled_start dec = None \<and> scheduled_end dec = None \<and>
       committed' = committed) \<or>
    (\<exists>s. status dec \<noteq> skipped \<and> scheduled_start dec = Some s \<and>
         scheduled_end dec = Some (s + duration_minutes t) \<and>
         committed' = committed @ [(name t, (s, s + duration_minutes t))] \<and>
         is_free (s, s + duration_minutes t) events committed))"
proof (cases "conflicts (native_window d t) events committed")
  case Nil
  then have free: "is_free (native_window d t) events committed" by (simp add: is_free_def)
  from assms Nil have "commit createEvent t (native_window d t) scheduled [] committed g = (dec, committed', g')"
    by (simp add: resolve_task_def)
  from commit_cases[OF this] free show ?thesis
    by (auto simp: native_window_def)
next
  case (Cons c cs)
  show ?thesis
  proof (cases allow)
    case False
    with assms Cons show ?thesis by (auto simp: resolve_task_def skip_decision_def)
  next
    case True
    show ?thesis
    proof (cases "probe boundary (duration_minutes t) events committed (snd (snd c))")
      case None
      with assms Cons True show ?thesis by (auto simp: resolve_task_def skip_decision_def)
    next
      case (Some p)
      with assms Cons True have
        "commit createEvent t (p, p + duration_minutes t) scheduled_rescheduled
           (''conflict with '' @ fst c) committed g = (dec, committed', g')"
        by (simp add: resolve_task_def)
      from commit_cases[OF this] probe_Some[OF Some] show ?thesis by auto
    qed
  qed
qed

lemma is_free_prefix: "is_free w events (committed @ extra) \<Longrightarrow> is_free w events committed"
  by (auto simp: is_free_iff)

lemma resolve_tasks_free:
  "resolve_tasks createEvent boundary d events allow ts committed g = (decs, g') \<Longrightarrow>
   \<forall>dec\<in>set decs. status dec \<noteq> skipped \<longrightarrow>
     (\<exists>s e. scheduled_start dec = Some s \<and> scheduled_end dec = Some e \<and>
            is_free (s, e) events committed)"
proof (induction ts arbitrary: committed g decs g')
  case Nil
  then show ?case by simp
next
  case (Cons t ts)
  obtain dec c1 g1 where step:
    "resolve_task createEvent boundary d events allow t committed g = (dec, c1, g1)"
    by (cases "resolve_task createEvent boundary d events allow t committed g") auto
  obtain rest g2 where rec:
    "resolve_tasks createEvent boundary d events allow ts c1 g1 = (rest, g2)"
    by (cases "resolve_tasks createEvent boundary d events allow ts c1 g1") auto
  from Cons.prems step rec have decs: "decs = dec # rest" by simp
  from resolve_task_cases[OF step] have
    c1: "\<exists>extra. c1 = committed @ extra"
    and hd: "status dec \<noteq> skipped \<longrightarrow>
       (\<exists>s e. scheduled_start dec = Some s \<and> scheduled_end dec = Some e \<and>
              is_free (s, e) events committed)"
    by auto
  from Cons.IH[OF rec] c1 have
    "\<forall>dec\<in>set rest. status dec \<noteq> skipped \<longrightarrow>
       (\<exists>s e. scheduled_start dec = Some s \<and> scheduled_end dec = Some e \<and>
              is_free (s, e) events committed)"
    by (metis is_free_prefix)
  with hd decs show ?case by simp
qed

lemma apart_sym: "apart a b \<Longrightarrow> apart b a"
  unfolding apart_def using overlaps_sym by blast

lemma resolve_tasks_apart:
  "resolve_tasks createEvent boundary d events allow ts committed g = (decs, g') \<Longrightarrow>
   sorted_wrt apart decs"
proof (induction ts arbitrary: committed g decs g')
  case Nil
  then show ?case by simp
next
  case (Cons t ts)
  obtain dec c1 g1 where step:
    "resolve_task createEvent boundary d events allow t committed g = (dec, c1, g1)"
    by (cases "resolve_task createEvent boundary d events allow t committed g") auto
  obtain rest g2 where rec:
    "resolve_tasks createEvent boundary d events allow ts c1 g1 = (rest, g2)"
    by (cases "resolve_tasks createEvent boundary d events allow ts c1 g1") auto
  from Cons.prems step rec have decs: "decs = dec # rest" by simp
  have "apart dec x" if x: "x \<in> set rest" for x
  proof (cases "status dec = skipped")
    case True
    then show ?thesis by (simp add: apart_def)
  next
    case False
    with resolve_task_cases[OF step] obtain s where
      s: "scheduled_start dec = Some s" "scheduled_end dec = Some (s + duration_minutes t)"
         "c1 = committed @ [(name t, (s, s + duration_minutes t))]"
      by auto
    show ?thesis
      unfolding apart_def
    proof (intro allI impI, elim conjE)
      fix a b a' b'
      assume "scheduled_start dec = Some a" "scheduled_end dec = Some b"
        "status x \<noteq> skipped" "scheduled_start x = Some a'" "scheduled_end x = Some b'"
      with s resolve_tasks_free[OF rec] x have "is_free (a', b') events c1" "a = s" "b = s + duration_minutes t"
        by auto
      then have "\<not> overlaps (a', b') (a, b)" using s(3) by (simp add: is_free_iff)
      then show "\<not> overlaps (a, b) (a', b')" using overlaps_sym by blast
    qed
  qed
  with Cons.IH[OF rec] decs show ?case by simp
qed

lemma resolve_tasks_aligned:
  "resolve_tasks createEvent boundary d events allow ts committed g = (decs, g') \<Longrightarrow>
   list_all2 (\<lambda>t dec. task_name dec = name t \<and>
       (status dec \<noteq> skipped \<longrightarrow>
          (\<exists>s. scheduled_start dec = Some s \<and> scheduled_end dec = Some (s + duration_minutes t))))
     ts decs"
proof (induction ts arbitrary: committed g decs g')
  case Nil
  then show ?case by simp
next
  case (Cons t ts)
  obtain dec c1 g1 where step:
    "resolve_task createEvent boundary d events allow t committed g = (dec, c1, g1)"
    by (cases "resolve_task createEvent boundary d events allow t committed g") auto
  obtain rest g2 where rec:
    "resolve_tasks createEvent boundary d events allow ts c1 g1 = (rest, g2)"
    by (cases "resolve_tasks createEvent boundary d events allow ts c1 g1") auto
  from Cons.prems step rec have decs: "decs = dec # rest" by simp
  from resolve_task_cases[OF step] Cons.IH[OF rec] decs show ?case by auto
qed

text \<open>
  C2. In a DayPlan of the ConflictResolver every decision that is not skipped ends its
  task's duration after it starts, and its window overlaps no calendar event fetched for
  the date and no other decision of the plan that is not skipped.
\<close>

theorem ConflictResolver_windows_disjoint:
  assumes "ConflictResolver createEvent boundary d ts events allow g = (plan, g')"
  shows "length (decisions plan) = length ts \<and>
    (\<forall>i<length ts. status (decisions plan ! i) \<noteq> skipped \<longrightarrow>
       (\<exists>s. scheduled_start (decisions plan ! i) = Some s \<and>
            scheduled_end (decisions plan ! i) = Some (s + duration_minutes (ts ! i)) \<and>
            (\<forall>ev\<in>set events.
               \<not> overlaps (s, s + duration_minutes (ts ! i)) (ev_start ev, ev_end ev)) \<and>
            (\<forall>j<length ts. j \<noteq> i \<longrightarrow> status (decisions plan ! j) \<noteq> skipped \<longrightarrow>
               (\<forall>s' e'. scheduled_start (decisions plan ! j) = Some s' \<longrightarrow>
                        scheduled_end (decisions plan ! j) = Some e' \<longrightarrow>
                        \<not> overlaps (s, s + duration_minutes (ts ! i)) (s', e')))))"
proof -
  obtain decs where run: "resolve_tasks createEvent boundary d events allow ts [] g = (decs, g')"
    and plan: "plan = \<lparr>date = d, decisions = decs\<rparr>"
    using assms by (auto simp: ConflictResolver_def split: prod.splits)
  have al: "list_all2 (\<lambda>t dec. task_name dec = name t \<and>
       (status dec \<noteq> skipped \<longrightarrow>
          (\<exists>s. scheduled_start dec = Some s \<and> scheduled_end dec = Some (s + duration_minutes t))))
     ts decs"
    by (rule resolve_tasks_aligned[OF run])
  then have len: "length decs = length ts" by (simp add: list_all2_lengthD)
  have sw: "sorted_wrt apart decs" by (rule resolve_tasks_apart[OF run])
  have ap: "apart (decs ! i) (decs ! j)" if "i < length ts" "j < length ts" "i \<noteq> j" for i j
  proof (cases "i < j")
    case True
    with sw that len show ?thesis by (simp add: sorted_wrt_iff_nth_less)
  next
    case False
    with that have "j < i" by simp
    with sw that len have "apart (decs ! j) (decs ! i)" by (simp add: sorted_wrt_iff_nth_less)
    then show ?thesis by (rule apart_sym)
  qed
  have "\<exists>s. scheduled_start (decs ! i) = Some s \<and>
            scheduled_end (decs ! i) = Some (s + duration_minutes (ts ! i)) \<and>
            (\<forall>ev\<in>set events.
               \<not> overlaps (s, s + duration_minutes (ts ! i)) (ev_start ev, ev_end ev)) \<and>
            (\<forall>j<length ts. j \<noteq> i \<longrightarrow> status (decs ! j) \<noteq> skipped \<longrightarrow>
               (\<forall>s' e'. scheduled_start (decs ! j) = Some s' \<longrightarrow>
                        scheduled_end (decs ! j) = Some e' \<longrightarrow>
                        \<not> overlaps (s, s + duration_minutes (ts ! i)) (s', e')))"
    if i: "i < length ts" and ns: "status (decs ! i) \<noteq> skipped" for i
  proof -
    from al i ns obtain s where
      s: "scheduled_start (decs ! i) = Some s" "scheduled_end (decs ! i) = Some (s + duration_minutes (ts ! i))"
      by (auto simp: list_all2_conv_all_nth)
    have "decs ! i \<in> set decs" using i len by simp
    with resolve_tasks_free[OF run] ns s have "is_free (s, s + duration_minutes (ts ! i)) events []"
      by fastforce
    then have ev: "\<forall>ev\<in>set events.
               \<not> overlaps (s, s + duration_minutes (ts ! i)) (ev_start ev, ev_end ev)"
      by (simp add: is_free_iff)
    have "\<not> overlaps (s, s + duration_minutes (ts ! i)) (s', e')"
      if "j < length ts" "j \<noteq> i" "status (decs ! j) \<noteq> skipped"
         "scheduled_start (decs ! j) = Some s'" "scheduled_end (decs ! j) = Some e'" for j s' e'
      using ap[OF i that(1)] that ns s unfolding apart_def by blast
    with s ev show ?thesis by blast
  qed
  with len show ?thesis by (simp add: plan)
qed

theorem ConflictResolver_windows_disjoint_witness:
  "ConflictResolver (\<lambda>g t w. (Inr g, Suc g)) (end_of_day 0) 0
      [\<lparr>name = ''Workout'', start_time = 540, duration_minutes = 30, days = {Mon}\<rparr>,
       \<lparr>name = ''Reading'', start_time = 585, duration_minutes = 20, days = {Mon}\<rparr>]
      [\<lparr>ev_start = 555, ev_end = 585, title = ''Standup'', external_id = 7\<rparr>] True (0::nat) =
     (\<lparr>date = 0, decisions =
        [\<lparr>task_name = ''Workout'', status = scheduled_rescheduled,
          scheduled_start = Some 585, scheduled_end = Some 615,
          reason = ''conflict with Standup''\<rparr>,
         \<lparr>task_name = ''Reading'', status = scheduled_rescheduled,
          scheduled_start = Some 615, scheduled_end = Some 635,
          reason = ''conflict with Workout''\<rparr>]\<rparr>, 2) \<and>
   \<not> overlaps (585, 615) (615, 635) \<and> \<not> overlaps (585, 615) (555, 585) \<and>
   \<not> overlaps (615, 635) (555, 585)"
proof -
  have run: "ConflictResolver (\<lambda>g t w. (Inr g, Suc g)) (end_of_day 0) 0
      [\<lparr>name = ''Workout'', start_time = 540, duration_minutes = 30, days = {Mon}\<rparr>,
       \<lparr>name = ''Reading'', start_time = 585, duration_minutes = 20, days = {Mon}\<rparr>]
      [\<lparr>ev_start = 555, ev_end = 585, title = ''Standup'', external_id = 7\<rparr>] True (0::nat) =
     (\<lparr>date = 0, decisions =
        [\<lparr>task_name = ''Workout'', status = scheduled_rescheduled,
          scheduled_start = Some 585, scheduled_end = Some 615,
          reason = ''conflict with Standup''\<rparr>,
         \<lparr>task_name = ''Reading'', status = scheduled_rescheduled,
          scheduled_start = Some 615, scheduled_end = Some 635,
          reason = ''conflict with Workout''\<rparr>]\<rparr>, 2)"
    by (simp add: ConflictResolver_def resolve_task_def conflicts_def native_window_def
          overlaps_def end_of_day_def is_free_def commit_def probe.simps)
  have "\<not> overlaps (585, 615) (615, 635)"
    using ConflictResolver_windows_disjoint[OF run, THEN conjunct2, rule_format, of 0]
    by (simp add: overlaps_def)
  with run show ?thesis by (simp add: overlaps_def)
qed








end
